theory Spec2Isabelle
  imports Complex_Main "HOL-Library.Word"
begin

section \<open>The pumphouse temperature node (OLD/Pumphouse/Pumphouse.ino)\<close>

text \<open>
  The sketch is a single-threaded Arduino program: \<open>setup\<close> runs once, then \<open>loop\<close> runs
  forever. One call of \<open>loop\<close> is modelled as a function from what the outside world
  supplies during that call (\<open>env\<close>) and the global variables (\<open>state\<close>) to the new
  globals and the ordered list of calls made to the hardware and the libraries
  (\<open>event list\<close>). Undefined behaviour of C (a read through a null pointer, a read or
  write past the end of an array) is a value of type \<open>fault\<close>.
\<close>

subsection \<open>Globals and constants\<close>

type_synonym DeviceAddress = "8 word list"

definition tempSensors :: "DeviceAddress list" where
  "tempSensors =
    [[0x28, 0xFF, 0xDD, 0x96, 0x36, 0x16, 0x03, 0xB9],
     [0x28, 0xB3, 0x8E, 0x4A, 0x07, 0x00, 0x00, 0xA8],
     [0x28, 0x0A, 0x62, 0xB8, 0x07, 0x00, 0x00, 0xB4]]"

definition tempSensorNames :: "string list" where
  "tempSensorNames = [''Lake Water: '', ''Outside Air: '', ''Intake Pipe: '']"

definition MESH_CHECK_INTERVAL :: "32 word" where
  "MESH_CHECK_INTERVAL = 15000"

definition HTTP_BUFFER_SIZE :: nat where
  "HTTP_BUFFER_SIZE = 400"

definition LED_PIN :: nat where
  "LED_PIN = 4"

definition LOW :: bool where
  "LOW = False"

definition HIGH :: bool where
  "HIGH = True"

datatype error = ERR_UNKNOWN | ERR_BUF_OVERFLOW | ERROR_NOT_TEMP_REQ | ERROR_NOT_GET_REQ

text \<open>
  The globals that \<open>loop\<close> reads and writes. A C \<open>float\<close> is modelled by the real number
  it denotes (rounding, infinities and NaN are outside the model); the array
  \<open>float temperatureReadings[3]\<close> is a list, of length 3 in every well-formed state.
\<close>

record state =
  temperatureReadings :: "real list"
  mesh_timer :: "32 word"
  numberOfOneWireDevices :: "8 word"

text \<open>
  What the libraries return during one call of \<open>loop\<close>: the two readings of \<open>millis()\<close>
  (the one tested and the one stored), the result of \<open>mesh.checkConnection()\<close>, the
  pending client of \<open>server.available()\<close> with the bytes it will deliver, the
  indeterminate initial contents of the local array \<open>buf\<close>, the one-wire bus, and the
  flag \<open>radio.failureDetected\<close> as read at the end of the call.
\<close>

record env =
  millis_test :: "32 word"
  millis_store :: "32 word"
  checkConnection :: bool
  available :: "string option"
  stack_buf :: string
  isConnected :: "DeviceAddress \<Rightarrow> bool"
  getTempC :: "DeviceAddress \<Rightarrow> real"
  failureDetected :: bool

datatype event =
    CheckConnection bool
  | DigitalWrite nat bool
  | RenewAddress
  | ClientFlush string
  | RequestTemperatures
  | SerialPrint string
  | ClientWrite string
  | ClientStop
  | WdtReset

datatype fault = NullPointer | ReadPastBuffer | WritePastBuffer | IndexOutOfRange

subsection \<open>C strings in a byte array\<close>

definition NUL :: char where
  "NUL = CHR 0x00"

definition CRLF :: string where
  "CRLF = [CHR 0x0D, CHR 0x0A]"

text \<open>
  The string that starts at offset \<open>p\<close> of the array \<open>mem\<close>: the bytes up to the first
  NUL. When no NUL follows inside the array, a C string function reads past its end.
\<close>

definition c_str :: "string \<Rightarrow> nat \<Rightarrow> string option" where
  "c_str mem p =
     (if NUL \<in> set (drop p mem) then Some (takeWhile (\<lambda>c. c \<noteq> NUL) (drop p mem)) else None)"

fun find_sub :: "string \<Rightarrow> string \<Rightarrow> nat option" where
  "find_sub needle [] = (if needle = [] then Some 0 else None)"
| "find_sub needle (c # cs) =
     (if take (length needle) (c # cs) = needle then Some 0
      else map_option Suc (find_sub needle cs))"

fun find_char :: "char \<Rightarrow> string \<Rightarrow> nat option" where
  "find_char d [] = None"
| "find_char d (c # cs) = (if c = d then Some 0 else map_option Suc (find_char d cs))"

text \<open>\<open>strstr(mem + p, needle)\<close>: a pointer to the first occurrence, or NULL (\<open>None\<close>).\<close>

definition strstr :: "string \<Rightarrow> nat \<Rightarrow> string \<Rightarrow> fault + nat option" where
  "strstr mem p needle =
     (case c_str mem p of
        None \<Rightarrow> Inl ReadPastBuffer
      | Some s \<Rightarrow> Inr (map_option (\<lambda>k. p + k) (find_sub needle s)))"

text \<open>
  \<open>strsep(&stringp, " ")\<close>: returns the array, the new \<open>stringp\<close> and the token. A NULL
  \<open>stringp\<close> gives a NULL token; otherwise the first delimiter is overwritten by NUL and
  \<open>stringp\<close> moves behind it, or becomes NULL when the string has no delimiter.
\<close>

definition strsep :: "string \<Rightarrow> nat option \<Rightarrow> char \<Rightarrow> fault + (string \<times> nat option \<times> nat option)" where
  "strsep mem stringp delim =
     (case stringp of
        None \<Rightarrow> Inr (mem, None, None)
      | Some p \<Rightarrow>
          (case c_str mem p of
             None \<Rightarrow> Inl ReadPastBuffer
           | Some s \<Rightarrow>
               (case find_char delim s of
                  None \<Rightarrow> Inr (mem, None, Some p)
                | Some k \<Rightarrow> Inr (mem[p + k := NUL], Some (p + k + 1), Some p))))"

text \<open>\<open>strcmp(mem + a, lit) == 0\<close>.\<close>

definition strcmp_eq :: "string \<Rightarrow> nat option \<Rightarrow> string \<Rightarrow> fault + bool" where
  "strcmp_eq mem a lit =
     (case a of
        None \<Rightarrow> Inl NullPointer
      | Some p \<Rightarrow>
          (case c_str mem p of
             None \<Rightarrow> Inl ReadPastBuffer
           | Some s \<Rightarrow> Inr (s = lit)))"

text \<open>
  \<open>strcpy\<close> and \<open>strcat\<close> into an array of \<open>cap\<close> bytes; the string held by the array is
  kept as a HOL string, and the terminating NUL counts against the capacity.
\<close>

definition strcpy :: "nat \<Rightarrow> string \<Rightarrow> fault + string" where
  "strcpy cap src = (if length src + 1 \<le> cap then Inr src else Inl WritePastBuffer)"

definition strcat :: "nat \<Rightarrow> string \<Rightarrow> string \<Rightarrow> fault + string" where
  "strcat cap dst src =
     (if length dst + length src + 1 \<le> cap then Inr (dst @ src) else Inl WritePastBuffer)"

subsection \<open>Formatting a reading\<close>

text \<open>
  Modelled from the spec: the decimal digits that \<open>dtostrf5\<close> below is made of
  (\<open>dtostrf\<close> of avr-libc is not part of the repository).
\<close>

definition digit_char :: "nat \<Rightarrow> char" where
  "digit_char d =
     (if d = 0 then CHR ''0'' else if d = 1 then CHR ''1'' else if d = 2 then CHR ''2''
      else if d = 3 then CHR ''3'' else if d = 4 then CHR ''4'' else if d = 5 then CHR ''5''
      else if d = 6 then CHR ''6'' else if d = 7 then CHR ''7'' else if d = 8 then CHR ''8''
      else CHR ''9'')"

fun dec_nat :: "nat \<Rightarrow> string" where
  "dec_nat n = (if n < 10 then [digit_char n] else dec_nat (n div 10) @ [digit_char (n mod 10)])"

declare dec_nat.simps [simp del]

text \<open>
  Modelled from the spec: \<open>dtostrf(val, 0, 5, s)\<close> of avr-libc is not part of the
  repository. The spec describes its result as "the reading formatted as a
  fixed-precision decimal string (5 fractional digits)": an optional minus sign, the
  integer part, a point, and five digits, the value rounded to the nearest multiple of
  \<open>10\<^sup>-\<^sup>5\<close>.
\<close>

definition dtostrf5 :: "real \<Rightarrow> string" where
  "dtostrf5 v =
     (let m = nat (round (\<bar>v\<bar> * 100000)) in
      (if v < 0 then ''-'' else '''') @ dec_nat (m div 100000) @ ''.'' @
      map (\<lambda>k. digit_char ((m div 10 ^ k) mod 10)) [4, 3, 2, 1, 0])"

text \<open>The result is written into \<open>char fltStr[10]\<close>.\<close>

definition dtostrf :: "real \<Rightarrow> fault + string" where
  "dtostrf v = strcpy 10 (dtostrf5 v)"

subsection \<open>The sensor bank: \<open>saveTemperature\<close>\<close>

definition saveTemperature :: "env \<Rightarrow> nat \<Rightarrow> state \<Rightarrow> fault + (state \<times> event list)" where
  "saveTemperature env sensorId st =
     (if \<not> sensorId < length tempSensors then Inl IndexOutOfRange
      else if isConnected env (tempSensors ! sensorId) then
        (let tempC = getTempC env (tempSensors ! sensorId);
             tempC = (if sensorId = 2 then tempC - 0.9375 else tempC)
         in Inr (st\<lparr>temperatureReadings := (temperatureReadings st)[sensorId := tempC]\<rparr>, []))
      else
        Inr (st, [SerialPrint ''Error: unable to communicate with sensor '',
                  SerialPrint (tempSensorNames ! sensorId @ CRLF)]))"

subsection \<open>The connectivity check at the head of \<open>loop\<close>\<close>

definition check_mesh :: "env \<Rightarrow> state \<Rightarrow> state \<times> event list" where
  "check_mesh env st =
     (if millis_test env - mesh_timer st > MESH_CHECK_INTERVAL then
        (st\<lparr>mesh_timer := millis_store env\<rparr>,
         if \<not> checkConnection env then
           [CheckConnection False, DigitalWrite LED_PIN LOW, RenewAddress, DigitalWrite LED_PIN HIGH]
         else
           [CheckConnection True, DigitalWrite LED_PIN HIGH])
      else (st, []))"

subsection \<open>Reading and classifying the request\<close>

text \<open>
  The read loop \<open>while (int dataToRead = client.waitAvailable() > 0)\<close>: the initialiser
  is the comparison, so \<open>dataToRead\<close> is 1 as long as the client has a byte left, and
  each round stores one byte at \<open>buf + idx\<close>. The third argument is the bytes the
  client still has to deliver: \<open>waitAvailable()\<close> is positive while it is not empty,
  and \<open>read(p, 1)\<close> then takes its first byte and returns 1. The result is \<open>idx\<close>, the
  array, the bytes not read, \<open>evalInput\<close> and \<open>error_type\<close>.
\<close>

fun read_request :: "nat \<Rightarrow> string \<Rightarrow> string \<Rightarrow> nat \<times> string \<times> string \<times> bool \<times> error" where
  "read_request idx buf [] = (idx, buf, [], True, ERR_UNKNOWN)"
| "read_request idx buf (c # cs) =
     (let dataToRead = (1 :: int) in
      if dataToRead \<le> int HTTP_BUFFER_SIZE - int idx
      then read_request (idx + nat dataToRead) (buf[idx := c]) cs
      else (idx, buf, c # cs, False, ERR_BUF_OVERFLOW))"

definition eval_input :: "string \<Rightarrow> fault + (bool \<times> error)" where
  "eval_input buf =
     (case strstr buf 0 ''GET'' of
        Inl f \<Rightarrow> Inl f
      | Inr None \<Rightarrow> Inr (False, ERROR_NOT_GET_REQ)
      | Inr (Some g) \<Rightarrow>
          (case strsep buf (Some g) CHR '' '' of
             Inl f \<Rightarrow> Inl f
           | Inr (buf1, gettype1, tok) \<Rightarrow>
               (case strsep buf1 gettype1 CHR '' '' of
                  Inl f \<Rightarrow> Inl f
                | Inr (buf2, gettype2, addr) \<Rightarrow>
                    (case strcmp_eq buf2 addr ''/temp'' of
                       Inl f \<Rightarrow> Inl f
                     | Inr equal \<Rightarrow>
                         (if equal then Inr (True, ERR_UNKNOWN)
                          else Inr (False, ERROR_NOT_TEMP_REQ))))))"

subsection \<open>The responses\<close>

definition HTTP_200_HEADER :: string where
  "HTTP_200_HEADER =
     ''HTTP/1.1 200 OK '' @ CRLF @ ''Content-Type: text/plain '' @ CRLF @
     ''Connection: close '' @ CRLF @ ''Refresh: 5 '' @ CRLF @ CRLF"

fun error_response :: "error \<Rightarrow> string" where
  "error_response ERR_BUF_OVERFLOW =
     ''HTTP/1.1 431 Request Header Fields Too Large '' @ CRLF @ CRLF"
| "error_response ERROR_NOT_GET_REQ = ''HTTP/1.1 405 Method Not Allowed '' @ CRLF @ CRLF"
| "error_response ERROR_NOT_TEMP_REQ =
     ''HTTP/1.1 501 Not Implemented '' @ CRLF @ CRLF @
     ''Only temperature(/temp) requests supported.'' @ CRLF"
| "error_response ERR_UNKNOWN = ''HTTP/1.1 520 Unknown Error '' @ CRLF @ CRLF"

text \<open>
  The loop \<open>for (uint8_t i = 0; i < numberOfOneWireDevices; i++)\<close> of the success
  branch, from counter \<open>i\<close> on; \<open>n\<close> is \<open>numberOfOneWireDevices\<close>. The test
  \<open>i < numberOfOneWireDevices - 1\<close> is evaluated in \<open>int\<close>, as C promotes both operands.
  The counter stays below \<open>numberOfOneWireDevices \<le> 255\<close>, so the \<open>uint8_t\<close> values \<open>i\<close>
  and \<open>sensorId\<close> never wrap and are natural numbers here.
\<close>

function send_sensors ::
  "env \<Rightarrow> nat \<Rightarrow> nat \<Rightarrow> state \<Rightarrow> string \<Rightarrow> fault + (state \<times> event list \<times> string)" where
  "send_sensors env n i st buf =
     (if i < n then
        (case saveTemperature env i st of
           Inl f \<Rightarrow> Inl f
         | Inr (st1, ev1) \<Rightarrow>
             (if \<not> i < length tempSensorNames then Inl IndexOutOfRange
              else case strcat HTTP_BUFFER_SIZE buf (tempSensorNames ! i) of
                Inl f \<Rightarrow> Inl f
              | Inr buf1 \<Rightarrow>
                  (if \<not> i < length (temperatureReadings st1) then Inl IndexOutOfRange
                   else case dtostrf (temperatureReadings st1 ! i) of
                     Inl f \<Rightarrow> Inl f
                   | Inr fltStr \<Rightarrow>
                       (case strcat HTTP_BUFFER_SIZE buf1 fltStr of
                          Inl f \<Rightarrow> Inl f
                        | Inr buf2 \<Rightarrow>
                            (case (if int i < int n - 1 then strcat HTTP_BUFFER_SIZE buf2 ''|''
                                   else Inr buf2) of
                               Inl f \<Rightarrow> Inl f
                             | Inr buf3 \<Rightarrow>
                                 (case send_sensors env n (i + 1) st1 buf3 of
                                    Inl f \<Rightarrow> Inl f
                                  | Inr (st2, ev2, buf4) \<Rightarrow> Inr (st2, ev1 @ ev2, buf4)))))))
      else Inr (st, [], buf))"
  by pat_completeness auto
termination
  by (relation "measure (\<lambda>(env, n, i, st, buf). n - i)") auto

declare send_sensors.simps [simp del]

subsection \<open>Servicing a client, and \<open>loop\<close>\<close>

text \<open>
  Reading and classifying: the bytes left for \<open>client.flush()\<close> to discard, \<open>transmit\<close>
  and \<open>error_type\<close>, as they stand when the response is chosen.
\<close>

definition classify_request :: "string \<Rightarrow> string \<Rightarrow> fault + (string \<times> bool \<times> error)" where
  "classify_request buf0 inbound =
     (case read_request 0 buf0 inbound of
        (idx, buf, rest, evalInput, error_type) \<Rightarrow>
          (if evalInput then
             (case eval_input buf of
                Inl f \<Rightarrow> Inl f
              | Inr (transmit, error_type') \<Rightarrow> Inr (rest, transmit, error_type'))
           else Inr (rest, False, error_type)))"

definition serve_client :: "env \<Rightarrow> state \<Rightarrow> string \<Rightarrow> fault + (state \<times> event list)" where
  "serve_client env st inbound =
     (case classify_request (stack_buf env) inbound of
        Inl f \<Rightarrow> Inl f
      | Inr (rest, transmit, error_type) \<Rightarrow>
          (if transmit then
             (case strcpy HTTP_BUFFER_SIZE HTTP_200_HEADER of
                Inl f \<Rightarrow> Inl f
              | Inr buf0 \<Rightarrow>
                  (case send_sensors env (unat (numberOfOneWireDevices st)) 0 st buf0 of
                     Inl f \<Rightarrow> Inl f
                   | Inr (st1, ev, buf1) \<Rightarrow>
                       (case strcat HTTP_BUFFER_SIZE buf1 CRLF of
                          Inl f \<Rightarrow> Inl f
                        | Inr buf2 \<Rightarrow>
                            Inr (st1,
                                 [ClientFlush rest, RequestTemperatures,
                                  SerialPrint (''Temperature request received; responding...'' @ CRLF)]
                                 @ ev @ [ClientWrite buf2, ClientStop]))))
           else
             Inr (st, [ClientFlush rest, ClientWrite (error_response error_type), ClientStop])))"

definition loop :: "env \<Rightarrow> state \<Rightarrow> fault + (state \<times> event list)" where
  "loop env st =
     (case check_mesh env st of
        (st1, ev1) \<Rightarrow>
          (case (case available env of
                   None \<Rightarrow> Inr (st1, [])
                 | Some inbound \<Rightarrow> serve_client env st1 inbound) of
             Inl f \<Rightarrow> Inl f
           | Inr (st2, ev2) \<Rightarrow>
               Inr (st2, ev1 @ ev2 @ (if \<not> failureDetected env then [WdtReset] else []))))"

subsection \<open>Observing a trace\<close>

text \<open>The level of an output pin after a list of events, from the level it had before.\<close>

fun pin_level :: "nat \<Rightarrow> bool \<Rightarrow> event list \<Rightarrow> bool" where
  "pin_level pin lvl [] = lvl"
| "pin_level pin lvl (DigitalWrite p v # es) = pin_level pin (if p = pin then v else lvl) es"
| "pin_level pin lvl (e # es) = pin_level pin lvl es"

definition probes :: "event list \<Rightarrow> bool" where
  "probes tr = (CheckConnection True \<in> set tr \<or> CheckConnection False \<in> set tr)"

text \<open>The array \<open>buf\<close> as the read loop leaves it.\<close>

definition buffer_after_read :: "string \<Rightarrow> string \<Rightarrow> string" where
  "buffer_after_read buf0 inbound =
     (case read_request 0 buf0 inbound of (idx, buf, rest, evalInput, error_type) \<Rightarrow> buf)"

subsection \<open>The response and the refresh pass as the specification words them\<close>

text \<open>
  The specification's \<open>refresh_all\<close>: an unreachable sensor keeps its stored reading, a
  reachable one stores the raw reading plus a per-identity calibration offset.
\<close>

definition spec_offset :: "nat \<Rightarrow> real" where
  "spec_offset i = (if i = 2 then - 0.9375 else 0)"

definition spec_reading :: "env \<Rightarrow> state \<Rightarrow> nat \<Rightarrow> real" where
  "spec_reading env st i =
     (if isConnected env (tempSensors ! i) then getTempC env (tempSensors ! i) + spec_offset i
      else temperatureReadings st ! i)"

definition spec_diagnostic :: "env \<Rightarrow> nat \<Rightarrow> event list" where
  "spec_diagnostic env i =
     (if isConnected env (tempSensors ! i) then []
      else [SerialPrint ''Error: unable to communicate with sensor '',
            SerialPrint (tempSensorNames ! i @ CRLF)])"

text \<open>
  The specification's success body: \<open><label><reading>\<close> per sensor, in declaration
  order, separated by \<open>|\<close>, terminated by a line break.
\<close>

definition spec_entry :: "env \<Rightarrow> state \<Rightarrow> nat \<Rightarrow> string" where
  "spec_entry env st i = tempSensorNames ! i @ dtostrf5 (spec_reading env st i)"

fun spec_join :: "string list \<Rightarrow> string" where
  "spec_join [] = []"
| "spec_join [x] = x"
| "spec_join (x # y # ys) = x @ ''|'' @ spec_join (y # ys)"

definition spec_body :: "env \<Rightarrow> state \<Rightarrow> nat \<Rightarrow> string" where
  "spec_body env st n = spec_join (map (spec_entry env st) [0..<n]) @ CRLF"

definition is_dec_digit :: "char \<Rightarrow> bool" where
  "is_dec_digit c = (c \<in> set ''0123456789'')"

definition five_fraction_digits :: "string \<Rightarrow> bool" where
  "five_fraction_digits s =
     (6 \<le> length s \<and> s ! (length s - 6) = CHR ''.'' \<and>
      list_all is_dec_digit (drop (length s - 5) s) \<and>
      CHR ''.'' \<notin> set (take (length s - 6) s))"

definition spec_refresh_all :: "env \<Rightarrow> state \<Rightarrow> nat \<Rightarrow> state" where
  "spec_refresh_all env st n =
     st\<lparr>temperatureReadings :=
          map (\<lambda>i. if i < n then spec_reading env st i else temperatureReadings st ! i) [0..<3]\<rparr>"

text \<open>
  The specification's request line: "split the buffer on space characters: the first
  token is the method, the second token is the path".
\<close>

definition spec_method :: "string \<Rightarrow> string" where
  "spec_method req = takeWhile (\<lambda>c. c \<noteq> CHR '' '') req"


subsection \<open>Example inputs\<close>

definition example_state :: state where
  "example_state = \<lparr>temperatureReadings = [0, 0, 0], mesh_timer = 0, numberOfOneWireDevices = 2\<rparr>"

definition example_env :: env where
  "example_env =
     \<lparr>millis_test = 20000, millis_store = 20001, checkConnection = False,
      available = None, stack_buf = replicate 64 (CHR ''#'') @ replicate 336 NUL,
      isConnected = (\<lambda>a. True),
      getTempC = (\<lambda>a. if a = tempSensors ! 0 then 5 else - 1),
      failureDetected = False\<rparr>"

definition example_env_offline :: env where
  "example_env_offline = example_env\<lparr>isConnected := (\<lambda>a. a \<noteq> tempSensors ! 0)\<rparr>"

definition example_state_stale :: state where
  "example_state_stale = example_state\<lparr>temperatureReadings := [4, 0, 0]\<rparr>"

text \<open>The first sensor answers with -127, the value the sensor library returns for a failed read.\<close>

definition example_env_sentinel :: env where
  "example_env_sentinel =
     example_env\<lparr>getTempC := (\<lambda>a. if a = tempSensors ! 0 then - 127 else - 1)\<rparr>"

definition request_GET_temp :: string where
  "request_GET_temp = ''GET /temp HTTP/1.1'' @ CRLF @ CRLF"

definition request_POST_temp :: string where
  "request_POST_temp = ''POST /temp HTTP/1.1'' @ CRLF @ CRLF"


definition request_POST_note :: string where
  "request_POST_note = ''POST /temp HTTP/1.1'' @ CRLF @ ''X-Note: GET /temp please'' @ CRLF @ CRLF"


section \<open>Auxiliary facts\<close>

subsection \<open>The read loop\<close>

lemma read_request_fits:
  "idx + length inp \<le> HTTP_BUFFER_SIZE \<Longrightarrow> idx + length inp \<le> length buf \<Longrightarrow>
   read_request idx buf inp =
     (idx + length inp, take idx buf @ inp @ drop (idx + length inp) buf, [], True, ERR_UNKNOWN)"
proof (induction inp arbitrary: idx buf)
  case Nil
  then show ?case by simp
next
  case (Cons c cs)
  have lt: "idx < length buf" using Cons.prems by simp
  have "take (Suc idx) (buf[idx := c]) = take idx buf @ [c]"
    using lt by (simp add: take_Suc_conv_app_nth)
  moreover have "drop (Suc (idx + length cs)) (buf[idx := c]) = drop (Suc (idx + length cs)) buf"
    by simp
  ultimately show ?case
    using Cons.prems Cons.IH [of "Suc idx" "buf[idx := c]"] by simp
qed

lemma read_request_overflow:
  "idx \<le> HTTP_BUFFER_SIZE \<Longrightarrow> HTTP_BUFFER_SIZE < idx + length inp \<Longrightarrow>
   \<exists>buf'. read_request idx buf inp =
     (HTTP_BUFFER_SIZE, buf', drop (HTTP_BUFFER_SIZE - idx) inp, False, ERR_BUF_OVERFLOW)"
proof (induction inp arbitrary: idx buf)
  case Nil
  then show ?case by simp
next
  case (Cons c cs)
  show ?case
  proof (cases "idx = HTTP_BUFFER_SIZE")
    case True
    then show ?thesis by simp
  next
    case False
    then have lt: "idx < HTTP_BUFFER_SIZE" using Cons.prems by simp
    then have d: "drop (HTTP_BUFFER_SIZE - idx) (c # cs) = drop (HTTP_BUFFER_SIZE - Suc idx) cs"
      by (simp add: drop_Cons')
    from Cons.IH [of "Suc idx" "buf[idx := c]"] Cons.prems lt d show ?thesis by simp
  qed
qed

lemma read_request_no_overflow:
  "idx + length inp \<le> HTTP_BUFFER_SIZE \<Longrightarrow>
   snd (snd (read_request idx buf inp)) = ([], True, ERR_UNKNOWN)"
  by (induction inp arbitrary: idx buf) auto

lemma buffer_after_read_fits:
  "length inbound \<le> HTTP_BUFFER_SIZE \<Longrightarrow> length inbound \<le> length buf0 \<Longrightarrow>
   buffer_after_read buf0 inbound = inbound @ drop (length inbound) buf0"
  using read_request_fits [of 0 inbound buf0] by (simp add: buffer_after_read_def)

subsection \<open>C strings and the classification\<close>

lemma c_str_SomeD:
  assumes "c_str mem p = Some s"
  shows "\<exists>r. drop p mem = s @ NUL # r \<and> NUL \<notin> set s"
proof -
  let ?xs = "drop p mem"
  from assms have mem: "NUL \<in> set ?xs" and s: "s = takeWhile (\<lambda>c. c \<noteq> NUL) ?xs"
    by (auto simp: c_str_def split: if_splits)
  have ne: "dropWhile (\<lambda>c. c \<noteq> NUL) ?xs \<noteq> []"
    using mem by (simp add: dropWhile_eq_Nil_conv)
  then have "hd (dropWhile (\<lambda>c. c \<noteq> NUL) ?xs) = NUL"
    using hd_dropWhile [of "\<lambda>c. c \<noteq> NUL" ?xs] by simp
  with ne obtain r where "dropWhile (\<lambda>c. c \<noteq> NUL) ?xs = NUL # r"
    by (cases "dropWhile (\<lambda>c. c \<noteq> NUL) ?xs") auto
  then have "?xs = s @ NUL # r"
    using takeWhile_dropWhile_id [of "\<lambda>c. c \<noteq> NUL" ?xs] s by simp
  moreover have "NUL \<notin> set s"
    using s by (auto dest: set_takeWhileD)
  ultimately show ?thesis by blast
qed

lemma c_str_SomeI:
  assumes "drop p mem = s @ NUL # r" and "NUL \<notin> set s"
  shows "c_str mem p = Some s"
proof -
  have "takeWhile (\<lambda>c. c \<noteq> NUL) (s @ NUL # r) = s"
    using assms(2) by (induction s) auto
  then show ?thesis using assms(1) by (simp add: c_str_def)
qed

lemma c_str_drop:
  assumes "c_str mem p = Some s" and "g \<le> length s"
  shows "c_str mem (p + g) = Some (drop g s)"
proof -
  from c_str_SomeD [OF assms(1)] obtain r where r: "drop p mem = s @ NUL # r" and n: "NUL \<notin> set s"
    by blast
  have "drop (p + g) mem = drop g (drop p mem)" by (simp add: add.commute)
  also have "\<dots> = drop g s @ NUL # r" using r assms(2) by simp
  finally show ?thesis using n by (intro c_str_SomeI [where r = r]) (auto dest: in_set_dropD)
qed

lemma c_str_cut:
  assumes "c_str mem p = Some s" and "k < length s"
  shows "c_str (mem[p + k := NUL]) p = Some (take k s)"
proof -
  from c_str_SomeD [OF assms(1)] obtain r where r: "drop p mem = s @ NUL # r" and n: "NUL \<notin> set s"
    by blast
  have "drop p (mem[p + k := NUL]) = (drop p mem)[k := NUL]"
    by (simp add: drop_update_swap)
  also have "\<dots> = take k s @ NUL # (drop (Suc k) s @ NUL # r)"
    using r assms(2) by (simp add: list_update_append1 upd_conv_take_nth_drop)
  finally show ?thesis using n by (intro c_str_SomeI) (auto dest: in_set_takeD)
qed

lemma c_str_behind_cut:
  assumes "c_str mem p = Some s" and "k < length s"
  shows "c_str (mem[p + k := NUL]) (p + k + 1) = Some (drop (k + 1) s)"
proof -
  have "c_str mem (p + (k + 1)) = Some (drop (k + 1) s)"
    using assms by (intro c_str_drop) auto
  moreover have "drop (p + k + 1) (mem[p + k := NUL]) = drop (p + k + 1) mem"
    by simp
  ultimately show ?thesis unfolding c_str_def by (simp only: add.assoc)
qed

lemma find_sub_le: "find_sub needle s = Some g \<Longrightarrow> g \<le> length s"
  by (induction s arbitrary: g) (auto split: if_splits)

lemma find_sub_absent: "needle \<noteq> [] \<Longrightarrow> hd needle \<notin> set s \<Longrightarrow> find_sub needle s = None"
  by (induction s) (auto simp: take_Cons' neq_Nil_conv split: if_splits)

lemma find_char_Some:
  "find_char d s = Some k \<Longrightarrow> k < length s \<and> take k s = takeWhile (\<lambda>c. c \<noteq> d) s"
  by (induction s arbitrary: k) (auto split: if_splits)

lemma find_char_None: "find_char d s = None \<Longrightarrow> takeWhile (\<lambda>c. c \<noteq> d) s = s"
  by (induction s) (auto split: if_splits)

lemma eval_input_unterminated: "c_str buf 0 = None \<Longrightarrow> eval_input buf = Inl ReadPastBuffer"
  by (simp add: eval_input_def strstr_def)

lemma eval_input_no_GET:
  "c_str buf 0 = Some s \<Longrightarrow> find_sub ''GET'' s = None \<Longrightarrow>
   eval_input buf = Inr (False, ERROR_NOT_GET_REQ)"
  by (simp add: eval_input_def strstr_def)

lemma eval_input_no_space:
  assumes "c_str buf 0 = Some s" and "find_sub ''GET'' s = Some g"
    and "find_char CHR '' '' (drop g s) = None"
  shows "eval_input buf = Inl NullPointer"
proof -
  have "c_str buf g = Some (drop g s)"
    using c_str_drop [OF assms(1) find_sub_le [OF assms(2)]] by simp
  then show ?thesis using assms
    by (simp add: eval_input_def strstr_def strsep_def strcmp_eq_def)
qed

lemma eval_input_path:
  assumes "c_str buf 0 = Some s" and "find_sub ''GET'' s = Some g"
    and "find_char CHR '' '' (drop g s) = Some k"
  shows "eval_input buf =
           (if takeWhile (\<lambda>c. c \<noteq> CHR '' '') (drop (g + k + 1) s) = ''/temp''
            then Inr (True, ERR_UNKNOWN) else Inr (False, ERROR_NOT_TEMP_REQ))"
proof -
  let ?u = "drop (g + k + 1) s"
  let ?tok = "takeWhile (\<lambda>c. c \<noteq> CHR '' '') ?u"
  let ?buf1 = "buf[g + k := NUL]"
  have g: "c_str buf g = Some (drop g s)"
    using c_str_drop [OF assms(1) find_sub_le [OF assms(2)]] by simp
  have k: "k < length (drop g s)" using find_char_Some [OF assms(3)] by simp
  have u: "c_str ?buf1 (g + k + 1) = Some ?u"
    using c_str_behind_cut [OF g k] by (simp add: add.commute add.left_commute)
  have first: "strsep buf (Some g) CHR '' '' = Inr (?buf1, Some (g + k + 1), Some g)"
    using g assms(3) by (simp add: strsep_def)
  have second: "\<exists>buf2 sp. strsep ?buf1 (Some (g + k + 1)) CHR '' '' = Inr (buf2, sp, Some (g + k + 1))
                  \<and> c_str buf2 (g + k + 1) = Some ?tok"
  proof (cases "find_char CHR '' '' ?u")
    case None
    have tw: "?tok = ?u" by (rule find_char_None [OF None])
    show ?thesis unfolding tw using u None by (simp add: strsep_def)
  next
    case (Some j)
    have j: "j < length ?u" and t: "take j ?u = ?tok"
      using find_char_Some [OF Some] by simp_all
    have "c_str (?buf1[g + k + 1 + j := NUL]) (g + k + 1) = Some ?tok"
      using c_str_cut [OF u j] t by simp
    then show ?thesis using u Some by (simp add: strsep_def)
  qed
  then obtain buf2 sp where
    s2: "strsep ?buf1 (Some (g + k + 1)) CHR '' '' = Inr (buf2, sp, Some (g + k + 1))"
    and c2: "c_str buf2 (g + k + 1) = Some ?tok"
    by blast
  have "strstr buf 0 ''GET'' = Inr (Some g)"
    using assms(1,2) by (simp add: strstr_def)
  moreover have "strcmp_eq buf2 (Some (g + k + 1)) ''/temp'' = Inr (?tok = ''/temp'')"
    using c2 by (simp add: strcmp_eq_def)
  ultimately show ?thesis using first s2
    by (simp add: eval_input_def)
qed

lemma classify_request_fits:
  assumes "length inbound \<le> HTTP_BUFFER_SIZE"
  shows "classify_request buf0 inbound =
           (case eval_input (buffer_after_read buf0 inbound) of
              Inl f \<Rightarrow> Inl f
            | Inr (transmit, error_type) \<Rightarrow> Inr ([], transmit, error_type))"
proof -
  obtain idx buf rest ev e where r: "read_request 0 buf0 inbound = (idx, buf, rest, ev, e)"
    by (metis prod_cases5)
  with read_request_no_overflow [of 0 inbound buf0] assms
  have "rest = []" "ev" "e = ERR_UNKNOWN" by simp_all
  with r show ?thesis by (simp add: classify_request_def buffer_after_read_def)
qed

lemma classify_Serve:
  assumes "length inbound \<le> HTTP_BUFFER_SIZE"
    and "c_str (buffer_after_read buf0 inbound) 0 = Some s"
    and "find_sub ''GET'' s = Some g"
    and "find_char CHR '' '' (drop g s) = Some k"
    and "takeWhile (\<lambda>c. c \<noteq> CHR '' '') (drop (g + k + 1) s) = ''/temp''"
  shows "classify_request buf0 inbound = Inr ([], True, ERR_UNKNOWN)"
  using assms(1,5) eval_input_path [OF assms(2,3,4)]
  by (simp add: classify_request_fits)

lemma GET_without_space_NullPointer:
  assumes "length (stack_buf env) = HTTP_BUFFER_SIZE"
  shows "serve_client env st (''GET'' @ [NUL]) = Inl NullPointer"
proof -
  let ?inb = "''GET'' @ [NUL]"
  let ?r = "drop (length ?inb) (stack_buf env)"
  have fits: "length ?inb \<le> HTTP_BUFFER_SIZE" by (simp add: HTTP_BUFFER_SIZE_def)
  have b: "buffer_after_read (stack_buf env) ?inb = ?inb @ ?r"
    by (rule buffer_after_read_fits) (simp_all add: assms HTTP_BUFFER_SIZE_def)
  have c: "c_str (buffer_after_read (stack_buf env) ?inb) 0 = Some ''GET''"
    unfolding b by (rule c_str_SomeI [where r = ?r]) (simp_all add: NUL_def)
  have "eval_input (buffer_after_read (stack_buf env) ?inb) = Inl NullPointer"
    by (rule eval_input_no_space [OF c, of 0]) simp_all
  then show ?thesis
    by (simp only: serve_client_def classify_request_fits [OF fits] sum.case)
qed

lemma unterminated_buffer_faults:
  assumes "length (stack_buf env) = HTTP_BUFFER_SIZE"
  shows "serve_client env st (replicate HTTP_BUFFER_SIZE CHR ''A'') = Inl ReadPastBuffer"
proof -
  let ?inb = "replicate HTTP_BUFFER_SIZE CHR ''A''"
  have fits: "length ?inb \<le> HTTP_BUFFER_SIZE" by simp
  have b: "buffer_after_read (stack_buf env) ?inb = ?inb"
    using buffer_after_read_fits [of ?inb "stack_buf env"] assms by simp
  have "c_str ?inb 0 = None" by (simp add: c_str_def NUL_def)
  then have "eval_input (buffer_after_read (stack_buf env) ?inb) = Inl ReadPastBuffer"
    unfolding b by (rule eval_input_unterminated)
  then show ?thesis
    by (simp only: serve_client_def classify_request_fits [OF fits] sum.case)
qed

subsection \<open>Formatted readings\<close>

lemma digit_char_digit: "is_dec_digit (digit_char d)"
  by (simp add: is_dec_digit_def digit_char_def)

lemma dec_digit_not_point: "is_dec_digit c \<Longrightarrow> c \<noteq> CHR ''.''"
  by (auto simp: is_dec_digit_def)

lemma dec_digit_not_bar: "is_dec_digit c \<Longrightarrow> c \<noteq> CHR ''|''"
  by (auto simp: is_dec_digit_def)

lemma dec_nat_digits: "list_all is_dec_digit (dec_nat n)"
proof (induction n rule: dec_nat.induct)
  case (1 n)
  show ?case
  proof (cases "n < 10")
    case True
    then have "dec_nat n = [digit_char n]" by (subst dec_nat.simps) simp
    then show ?thesis by (simp add: digit_char_digit)
  next
    case False
    then have "dec_nat n = dec_nat (n div 10) @ [digit_char (n mod 10)]"
      by (subst dec_nat.simps) simp
    then show ?thesis using 1 [OF False] by (simp add: digit_char_digit)
  qed
qed

lemma dtostrf5_shape:
  "\<exists>sg ip fr. dtostrf5 v = sg @ ip @ ''.'' @ fr \<and> (sg = '''' \<or> sg = ''-'') \<and>
      list_all is_dec_digit ip \<and> list_all is_dec_digit fr \<and> length fr = 5"
proof -
  define m where "m = nat (round (\<bar>v\<bar> * 100000))"
  define sg where "sg = (if v < 0 then ''-'' else '''')"
  define ip where "ip = dec_nat (m div 100000)"
  define fr where "fr = map (\<lambda>k. digit_char ((m div 10 ^ k) mod 10)) [4, 3, 2, 1, 0]"
  have "dtostrf5 v = sg @ ip @ ''.'' @ fr"
    unfolding dtostrf5_def Let_def m_def sg_def ip_def fr_def by (rule refl)
  moreover have "sg = '''' \<or> sg = ''-''" by (simp add: sg_def)
  moreover have "list_all is_dec_digit ip" unfolding ip_def by (rule dec_nat_digits)
  moreover have "list_all is_dec_digit fr" unfolding fr_def by (simp add: digit_char_digit)
  moreover have "length fr = 5" unfolding fr_def by simp
  ultimately show ?thesis by blast
qed

lemma five_fraction_digits_dtostrf5: "five_fraction_digits (dtostrf5 v)"
proof -
  from dtostrf5_shape [of v] obtain sg ip fr where
    s: "dtostrf5 v = sg @ ip @ ''.'' @ fr" and sg: "sg = '''' \<or> sg = ''-''"
    and ip: "list_all is_dec_digit ip" and fr: "list_all is_dec_digit fr" and l: "length fr = 5"
    by blast
  let ?pre = "sg @ ip"
  have s': "dtostrf5 v = ?pre @ CHR ''.'' # fr" using s by simp
  have len: "length (dtostrf5 v) = length ?pre + 6" unfolding s' using l by simp
  have "CHR ''.'' \<notin> set ip"
    using ip dec_digit_not_point by (auto simp: list_all_iff)
  moreover have "CHR ''.'' \<notin> set sg" using sg by auto
  ultimately have pre: "CHR ''.'' \<notin> set ?pre" by simp
  have a: "dtostrf5 v ! (length (dtostrf5 v) - 6) = CHR ''.''"
    unfolding len unfolding s' by (simp only: add_diff_cancel_right' nth_append_length)
  have b: "drop (length (dtostrf5 v) - 5) (dtostrf5 v) = fr"
    unfolding len unfolding s' by simp
  have c: "take (length (dtostrf5 v) - 6) (dtostrf5 v) = ?pre"
    unfolding len unfolding s' by simp
  show ?thesis
    unfolding five_fraction_digits_def a b c using len fr pre by simp
qed

lemma no_bar_dtostrf5: "CHR ''|'' \<notin> set (dtostrf5 v)"
proof -
  from dtostrf5_shape [of v] obtain sg ip fr where
    s: "dtostrf5 v = sg @ ip @ ''.'' @ fr" and sg: "sg = '''' \<or> sg = ''-''"
    and ip: "list_all is_dec_digit ip" and fr: "list_all is_dec_digit fr"
    by blast
  have "CHR ''|'' \<notin> set ip" "CHR ''|'' \<notin> set fr"
    using ip fr dec_digit_not_bar by (auto simp: list_all_iff)
  moreover have "CHR ''|'' \<notin> set sg" using sg by auto
  ultimately show ?thesis unfolding s by simp
qed

lemma dec_nat_numeral:
  "dec_nat (numeral k) =
     (if numeral k < (10::nat) then [digit_char (numeral k)]
      else dec_nat (numeral k div 10) @ [digit_char (numeral k mod 10)])"
  by (rule dec_nat.simps)

lemma dec_nat_0: "dec_nat 0 = ''0''"
  by (simp add: dec_nat.simps [of 0] digit_char_def)

lemma dec_nat_1: "dec_nat (Suc 0) = ''1''"
  using dec_nat.simps [of "Suc 0"] by (simp add: digit_char_def)

lemma dtostrf5_5: "dtostrf5 5 = ''5.00000''"
  by (simp add: dtostrf5_def dec_nat_numeral dec_nat_0 dec_nat_1 digit_char_def)

lemma dtostrf5_m1: "dtostrf5 (- 1) = ''-1.00000''"
  by (simp add: dtostrf5_def dec_nat_numeral dec_nat_0 dec_nat_1 digit_char_def)

lemma dtostrf5_4: "dtostrf5 4 = ''4.00000''"
  by (simp add: dtostrf5_def dec_nat_numeral dec_nat_0 dec_nat_1 digit_char_def)

lemma dtostrf5_m127: "dtostrf5 (- 127) = ''-127.00000''"
  by (simp add: dtostrf5_def dec_nat_numeral dec_nat_0 dec_nat_1 digit_char_def)

text \<open>
  Readings between -99 and 999 degrees, which covers the range of the sensors, are
  formatted in at most 9 characters and so fit \<open>char fltStr[10]\<close>.
\<close>

lemma dec_nat_length_1: "n < 10 \<Longrightarrow> length (dec_nat n) = 1"
  by (subst dec_nat.simps) simp

lemma dec_nat_length_2: "n < 100 \<Longrightarrow> length (dec_nat n) \<le> 2"
  by (subst dec_nat.simps) (simp add: dec_nat_length_1)

lemma dec_nat_length_3: "n < 1000 \<Longrightarrow> length (dec_nat n) \<le> 3"
proof -
  assume "n < 1000"
  then have "n div 10 < 100" by simp
  from dec_nat_length_2 [OF this] show ?thesis
    by (subst dec_nat.simps) (simp add: dec_nat_length_1)
qed

lemma dtostrf5_fits:
  assumes "- 99 \<le> v" and "v \<le> 999"
  shows "length (dtostrf5 v) \<le> 9"
proof -
  define m where "m = nat (round (\<bar>v\<bar> * 100000))"
  have len: "length (dtostrf5 v) = (if v < 0 then 1 else 0) + length (dec_nat (m div 100000)) + 6"
    by (simp add: dtostrf5_def m_def Let_def)
  show ?thesis
  proof (cases "v < 0")
    case True
    then have "\<bar>v\<bar> * 100000 \<le> 9900000" using assms(1) by simp
    from round_mono [OF this] have "round (\<bar>v\<bar> * 100000) \<le> 9900000" by simp
    then have "m \<le> 9900000" by (simp add: m_def)
    then have "m div 100000 < 100" by simp
    from dec_nat_length_2 [OF this] show ?thesis using len True by simp
  next
    case False
    then have "\<bar>v\<bar> * 100000 \<le> 99900000" using assms(2) by simp
    from round_mono [OF this] have "round (\<bar>v\<bar> * 100000) \<le> 99900000" by simp
    then have "m \<le> 99900000" by (simp add: m_def)
    then have "m div 100000 < 1000" by simp
    from dec_nat_length_3 [OF this] show ?thesis using len False by simp
  qed
qed

subsection \<open>The sensor loop and the success response\<close>

lemma name_length: "i < 3 \<Longrightarrow> length (tempSensorNames ! i) \<le> 13 \<and> i < length tempSensorNames"
proof -
  assume "i < 3"
  then have "i = 0 \<or> i = 1 \<or> i = 2" by arith
  then show ?thesis by (auto simp: tempSensorNames_def)
qed

lemma no_bar_name: "i < 3 \<Longrightarrow> CHR ''|'' \<notin> set (tempSensorNames ! i)"
proof -
  assume "i < 3"
  then have "i = 0 \<or> i = 1 \<or> i = 2" by arith
  then show ?thesis by (auto simp: tempSensorNames_def)
qed

lemma saveTemperature_eq:
  assumes "i < 3" and "i < length (temperatureReadings st)"
  shows "saveTemperature env i st =
           Inr (st\<lparr>temperatureReadings := (temperatureReadings st)[i := spec_reading env st i]\<rparr>,
                spec_diagnostic env i)"
  using assms
  by (simp add: saveTemperature_def spec_reading_def spec_diagnostic_def spec_offset_def
      tempSensors_def Let_def)

lemma spec_join_Cons: "spec_join (x # xs) = x @ (if xs = [] then [] else ''|'' @ spec_join xs)"
  by (cases xs) simp_all

lemma count_bar_join:
  "\<forall>x\<in>set xs. CHR ''|'' \<notin> set x \<Longrightarrow> count_list (spec_join xs) CHR ''|'' = length xs - 1"
proof (induction xs)
  case Nil
  then show ?case by simp
next
  case (Cons x xs)
  then have "count_list x CHR ''|'' = 0" by (simp add: count_list_0_iff)
  then show ?case using Cons by (cases xs) (simp_all add: spec_join_Cons)
qed

lemma length_join:
  "\<forall>x\<in>set xs. length x \<le> 22 \<Longrightarrow> length (spec_join xs) \<le> 23 * length xs"
proof (induction xs)
  case Nil
  then show ?case by simp
next
  case (Cons x xs)
  then show ?case by (simp add: spec_join_Cons)
qed

lemma length_HTTP_200_HEADER: "length HTTP_200_HEADER = 80"
  by (simp add: HTTP_200_HEADER_def CRLF_def)

lemma send_sensors_run:
  assumes "n \<le> 3" and "length (temperatureReadings st) = 3" and "i \<le> n"
    and "\<forall>j. i \<le> j \<and> j < n \<longrightarrow> length (dtostrf5 (spec_reading env st j)) \<le> 9"
    and "length buf + 23 * (n - i) < HTTP_BUFFER_SIZE"
  shows "\<exists>rs. send_sensors env n i st buf =
             Inr (st\<lparr>temperatureReadings := rs\<rparr>, concat (map (spec_diagnostic env) [i..<n]),
                  buf @ spec_join (map (spec_entry env st) [i..<n]))
           \<and> length rs = 3
           \<and> (\<forall>j<3. rs ! j = (if i \<le> j \<and> j < n then spec_reading env st j
                               else temperatureReadings st ! j))"
  using assms
proof (induction "n - i" arbitrary: i st buf)
  case 0
  then have "i = n" by simp
  then have "send_sensors env n i st buf = Inr (st, [], buf)"
    by (simp add: send_sensors.simps)
  then show ?case using 0 by (intro exI [of _ "temperatureReadings st"]) simp
next
  case (Suc k)
  then have lt: "i < n" and i3: "i < 3" by simp_all
  let ?v = "spec_reading env st i"
  let ?st1 = "st\<lparr>temperatureReadings := (temperatureReadings st)[i := ?v]\<rparr>"
  let ?sep = "if Suc i < n then ''|'' else ''''"
  let ?buf3 = "buf @ tempSensorNames ! i @ dtostrf5 ?v @ ?sep"
  have save: "saveTemperature env i st = Inr (?st1, spec_diagnostic env i)"
    using saveTemperature_eq [of i st env] i3 Suc.prems(2) by simp
  have fit: "length (dtostrf5 ?v) \<le> 9" using Suc.prems(4) lt by simp
  have nm: "length (tempSensorNames ! i) \<le> 13" and nmi: "i < length tempSensorNames"
    using name_length [OF i3] by simp_all
  have room: "length buf + 23 * Suc k < HTTP_BUFFER_SIZE"
    using Suc.prems(5) Suc.hyps(2) by simp
  have same: "spec_reading env ?st1 j = spec_reading env st j" if "j \<noteq> i" for j
    using that by (simp add: spec_reading_def)
  have rd: "temperatureReadings ?st1 ! i = ?v" using i3 Suc.prems(2) by simp
  have step: "send_sensors env n i st buf =
      (case send_sensors env n (i + 1) ?st1 ?buf3 of
         Inl f \<Rightarrow> Inl f
       | Inr (st2, ev2, buf4) \<Rightarrow> Inr (st2, spec_diagnostic env i @ ev2, buf4))"
    using lt save fit nm nmi room rd i3 Suc.prems(2)
    by (subst send_sensors.simps) (simp add: strcat_def strcpy_def dtostrf_def)
  have "\<exists>rs. send_sensors env n (Suc i) ?st1 ?buf3 =
             Inr (?st1\<lparr>temperatureReadings := rs\<rparr>, concat (map (spec_diagnostic env) [Suc i..<n]),
                  ?buf3 @ spec_join (map (spec_entry env ?st1) [Suc i..<n]))
           \<and> length rs = 3
           \<and> (\<forall>j<3. rs ! j = (if Suc i \<le> j \<and> j < n then spec_reading env ?st1 j
                               else temperatureReadings ?st1 ! j))"
  proof (rule Suc.hyps(1))
    show "k = n - Suc i" using Suc.hyps(2) by simp
    show "n \<le> 3" by (rule Suc.prems(1))
    show "length (temperatureReadings ?st1) = 3" using Suc.prems(2) by simp
    show "Suc i \<le> n" using lt by simp
    show "\<forall>j. Suc i \<le> j \<and> j < n \<longrightarrow> length (dtostrf5 (spec_reading env ?st1 j)) \<le> 9"
      using Suc.prems(4) same by simp
    show "length ?buf3 + 23 * (n - Suc i) < HTTP_BUFFER_SIZE"
    proof -
      have "n - i = Suc (n - Suc i)" using lt by simp
      then have "length buf + 23 + 23 * (n - Suc i) < HTTP_BUFFER_SIZE"
        using Suc.prems(5) by simp
      moreover have "length ?buf3 \<le> length buf + 23" using fit nm by simp
      ultimately show ?thesis by linarith
    qed
  qed
  then obtain rs where
    run: "send_sensors env n (Suc i) ?st1 ?buf3 =
             Inr (?st1\<lparr>temperatureReadings := rs\<rparr>, concat (map (spec_diagnostic env) [Suc i..<n]),
                  ?buf3 @ spec_join (map (spec_entry env ?st1) [Suc i..<n]))"
    and len: "length rs = 3"
    and rs: "\<forall>j<3. rs ! j = (if Suc i \<le> j \<and> j < n then spec_reading env ?st1 j
                               else temperatureReadings ?st1 ! j)"
    by blast
  have ents: "map (spec_entry env ?st1) [Suc i..<n] = map (spec_entry env st) [Suc i..<n]"
    using same by (simp add: spec_entry_def)
  have upt: "[i..<n] = i # [Suc i..<n]" using lt by (simp add: upt_conv_Cons)
  have body: "?buf3 @ spec_join (map (spec_entry env st) [Suc i..<n]) =
              buf @ spec_join (map (spec_entry env st) [i..<n])"
    unfolding upt by (simp add: spec_join_Cons spec_entry_def)
  have vals: "\<forall>j<3. rs ! j = (if i \<le> j \<and> j < n then spec_reading env st j
                               else temperatureReadings st ! j)"
  proof (intro allI impI)
    fix j assume j: "j < (3::nat)"
    show "rs ! j = (if i \<le> j \<and> j < n then spec_reading env st j else temperatureReadings st ! j)"
    proof (cases "j = i")
      case True
      then show ?thesis using rs j rd lt by simp
    next
      case False
      then show ?thesis using rs j same [OF False] by auto
    qed
  qed
  have "send_sensors env n i st buf =
          Inr (st\<lparr>temperatureReadings := rs\<rparr>, concat (map (spec_diagnostic env) [i..<n]),
               buf @ spec_join (map (spec_entry env st) [i..<n]))"
    using step run ents body upt by simp
  then show ?case using len vals by blast
qed

lemma send_sensors_header:
  assumes "n \<le> 3" and "length (temperatureReadings st) = 3"
    and "\<forall>i<n. length (dtostrf5 (spec_reading env st i)) \<le> 9"
  shows "send_sensors env n 0 st HTTP_200_HEADER =
           Inr (spec_refresh_all env st n, concat (map (spec_diagnostic env) [0..<n]),
                HTTP_200_HEADER @ spec_join (map (spec_entry env st) [0..<n]))"
proof -
  have room: "length HTTP_200_HEADER + 23 * (n - 0) < HTTP_BUFFER_SIZE"
    using assms(1) by (simp add: length_HTTP_200_HEADER HTTP_BUFFER_SIZE_def)
  from send_sensors_run [where env = env and i = 0, OF assms(1,2) _ _ room] assms(3)
  obtain rs where
    run: "send_sensors env n 0 st HTTP_200_HEADER =
            Inr (st\<lparr>temperatureReadings := rs\<rparr>, concat (map (spec_diagnostic env) [0..<n]),
                 HTTP_200_HEADER @ spec_join (map (spec_entry env st) [0..<n]))"
    and len: "length rs = 3"
    and rs: "\<forall>j<3. rs ! j = (if 0 \<le> j \<and> j < n then spec_reading env st j
                               else temperatureReadings st ! j)"
    by auto
  have "rs = map (\<lambda>i. if i < n then spec_reading env st i else temperatureReadings st ! i) [0..<3]"
    using len rs by (intro nth_equalityI) simp_all
  then show ?thesis using run by (simp add: spec_refresh_all_def)
qed

lemma serve_client_Serve:
  assumes "classify_request (stack_buf env) inbound = Inr (rest, True, e)"
    and "unat (numberOfOneWireDevices st) = n" and "n \<le> 3"
    and "length (temperatureReadings st) = 3"
    and "\<forall>i<n. length (dtostrf5 (spec_reading env st i)) \<le> 9"
  shows "serve_client env st inbound =
           Inr (spec_refresh_all env st n,
                [ClientFlush rest, RequestTemperatures,
                 SerialPrint (''Temperature request received; responding...'' @ CRLF)]
                @ concat (map (spec_diagnostic env) [0..<n])
                @ [ClientWrite (HTTP_200_HEADER @ spec_body env st n), ClientStop])"
proof -
  have ent: "\<forall>x\<in>set (map (spec_entry env st) [0..<n]). length x \<le> 22"
  proof
    fix x assume "x \<in> set (map (spec_entry env st) [0..<n])"
    then obtain i where i: "i < n" and x: "x = spec_entry env st i" by auto
    then have "i < 3" using assms(3) by simp
    from name_length [OF this] assms(5) i show "length x \<le> 22"
      unfolding x spec_entry_def by fastforce
  qed
  have "length (spec_join (map (spec_entry env st) [0..<n])) \<le> 23 * n"
    using length_join [OF ent] by simp
  then have "length (HTTP_200_HEADER @ spec_join (map (spec_entry env st) [0..<n])) + length CRLF + 1
               \<le> HTTP_BUFFER_SIZE"
    using assms(3) by (simp add: length_HTTP_200_HEADER HTTP_BUFFER_SIZE_def CRLF_def)
  then have cat: "strcat HTTP_BUFFER_SIZE (HTTP_200_HEADER @ spec_join (map (spec_entry env st) [0..<n])) CRLF =
                    Inr (HTTP_200_HEADER @ spec_body env st n)"
    by (simp add: strcat_def spec_body_def)
  have cpy: "strcpy HTTP_BUFFER_SIZE HTTP_200_HEADER = Inr HTTP_200_HEADER"
    by (simp add: strcpy_def length_HTTP_200_HEADER HTTP_BUFFER_SIZE_def)
  show ?thesis
    using assms(1,2) cpy cat send_sensors_header [OF assms(3,4,5)]
    by (simp add: serve_client_def)
qed

text \<open>
  A reading of ten or more characters overruns \<open>char fltStr[10]\<close>, and with more than
  three devices counted the loop indexes past the three declared identities.
\<close>

lemma send_sensors_overrun:
  assumes "i < n" and "i < 3" and "length (temperatureReadings st) = 3"
    and "9 < length (dtostrf5 (spec_reading env st i))"
    and "length buf + 13 < HTTP_BUFFER_SIZE"
  shows "send_sensors env n i st buf = Inl WritePastBuffer"
proof -
  have nm: "length (tempSensorNames ! i) \<le> 13" and nmi: "i < length tempSensorNames"
    using name_length [OF assms(2)] by simp_all
  show ?thesis
    using assms nm nmi saveTemperature_eq [of i st env]
    by (subst send_sensors.simps) (simp add: strcat_def strcpy_def dtostrf_def)
qed

lemma send_sensors_too_many:
  "3 < n \<Longrightarrow> i \<le> 3 \<Longrightarrow> \<exists>f. send_sensors env n i st buf = Inl f"
proof (induction "3 - i" arbitrary: i st buf)
  case 0
  then have "i = 3" by simp
  then have "saveTemperature env i st = Inl IndexOutOfRange"
    by (simp add: saveTemperature_def tempSensors_def)
  then show ?case using 0 by (subst send_sensors.simps) simp
next
  case (Suc k)
  then have i: "i < 3" "i < n" by simp_all
  have rec: "\<exists>f. send_sensors env n (i + 1) st1 buf3 = Inl f" for st1 buf3
    using Suc.hyps(1) [of "i + 1" st1 buf3] Suc.hyps(2) Suc.prems(1) i by simp
  show ?case
  proof (cases "send_sensors env n i st buf")
    case (Inl f)
    then show ?thesis by blast
  next
    case (Inr r)
    obtain st' ev buf' where r: "r = (st', ev, buf')" by (cases r)
    from Inr [unfolded r] i obtain st1 buf3 st2 ev2 where
      "send_sensors env n (i + 1) st1 buf3 = Inr (st2, ev2, buf')"
      by (subst (asm) send_sensors.simps) (auto split: sum.splits if_splits prod.splits)
    with rec [of st1 buf3] show ?thesis by simp
  qed
qed

text \<open>
  Within these bounds the success response is the one the specification describes: the
  header, the label/value pairs in declaration order joined by bars, and a line break.
\<close>

lemma success_response_in_bounds:
  assumes "classify_request (stack_buf env) inbound = Inr (rest, True, e)"
    and "unat (numberOfOneWireDevices st) = n" and "n \<le> 3"
    and "length (temperatureReadings st) = 3"
    and "\<forall>i<n. length (dtostrf5 (spec_reading env st i)) \<le> 9"
  shows "serve_client env st inbound =
           Inr (spec_refresh_all env st n,
                [ClientFlush rest, RequestTemperatures,
                 SerialPrint (''Temperature request received; responding...'' @ CRLF)]
                @ concat (map (spec_diagnostic env) [0..<n])
                @ [ClientWrite (HTTP_200_HEADER @ spec_body env st n), ClientStop])
         \<and> length (map (spec_entry env st) [0..<n]) = n
         \<and> count_list (spec_body env st n) CHR ''|'' = n - 1
         \<and> (\<forall>i<n. five_fraction_digits (dtostrf5 (spec_reading env st i)))"
proof -
  have "\<forall>x\<in>set (map (spec_entry env st) [0..<n]). CHR ''|'' \<notin> set x"
  proof
    fix x assume "x \<in> set (map (spec_entry env st) [0..<n])"
    then obtain i where i: "i < n" and x: "x = spec_entry env st i" by auto
    then have "i < 3" using assms(3) by simp
    from no_bar_name [OF this] no_bar_dtostrf5 show "CHR ''|'' \<notin> set x"
      unfolding x spec_entry_def by simp
  qed
  from count_bar_join [OF this]
  have "count_list (spec_body env st n) CHR ''|'' = n - 1"
    by (simp add: spec_body_def CRLF_def)
  then show ?thesis
    using serve_client_Serve [OF assms] five_fraction_digits_dtostrf5 by simp
qed

subsection \<open>The watchdog event\<close>

lemma saveTemperature_no_wdt: "saveTemperature env i st = Inr (st', ev) \<Longrightarrow> WdtReset \<notin> set ev"
  by (auto simp: saveTemperature_def Let_def split: if_splits)

lemma send_sensors_no_wdt:
  "send_sensors env n i st buf = Inr (st', ev, buf') \<Longrightarrow> WdtReset \<notin> set ev"
proof (induction "n - i" arbitrary: i st buf st' ev buf')
  case 0
  then show ?case by (simp add: send_sensors.simps)
next
  case (Suc k)
  then have lt: "i < n" by simp
  from Suc.prems lt obtain st1 ev1 buf3 ev2 where
    save: "saveTemperature env i st = Inr (st1, ev1)"
    and rec: "send_sensors env n (i + 1) st1 buf3 = Inr (st', ev2, buf')"
    and ev: "ev = ev1 @ ev2"
    by (subst (asm) send_sensors.simps) (auto split: sum.splits if_splits prod.splits)
  have "k = n - (i + 1)" using Suc.hyps(2) by simp
  from Suc.hyps(1) [OF this rec] saveTemperature_no_wdt [OF save] ev show ?case by simp
qed

lemma serve_client_no_wdt: "serve_client env st inbound = Inr (st', ev) \<Longrightarrow> WdtReset \<notin> set ev"
  by (auto simp: serve_client_def split: sum.splits prod.splits if_splits
      dest: send_sensors_no_wdt)

lemma check_mesh_keeps:
  "temperatureReadings (fst (check_mesh env st)) = temperatureReadings st"
  "numberOfOneWireDevices (fst (check_mesh env st)) = numberOfOneWireDevices st"
  "WdtReset \<notin> set (snd (check_mesh env st))"
  by (simp_all add: check_mesh_def)

lemma spec_reading_check_mesh:
  "spec_reading env (fst (check_mesh env st)) i = spec_reading env st i"
  by (simp add: spec_reading_def check_mesh_keeps)

subsection \<open>The millisecond clock\<close>

lemma word_elapsed:
  fixes t0 t :: nat
  assumes "t0 \<le> t" and "t - t0 < 2 ^ 32"
  shows "unat ((of_nat t :: 32 word) - of_nat t0) = t - t0"
proof -
  have "(of_nat t :: 32 word) - of_nat t0 = of_nat (t - t0)"
    using assms(1) by simp
  then show ?thesis using assms(2) by (simp add: unat_of_nat)
qed

subsection \<open>The example inputs evaluated\<close>

lemma upt_2: "[0..<2] = [0, 1]"
  by (simp add: numeral_2_eq_2)

lemma upt_3: "[0..<3] = [0, 1, 2]"
  by (simp add: numeral_3_eq_3)

lemma less_2_cases_all: "(\<forall>i<2. P i) \<longleftrightarrow> P 0 \<and> P (Suc 0)"
  by (auto simp: less_2_cases_iff)

lemma example_buffer:
  assumes "length inbound \<le> 64" and "NUL \<notin> set inbound"
  shows "c_str (buffer_after_read (stack_buf example_env) inbound) 0 =
           Some (inbound @ replicate (64 - length inbound) CHR ''#'')"
proof -
  have "buffer_after_read (stack_buf example_env) inbound =
          inbound @ drop (length inbound) (stack_buf example_env)"
    by (rule buffer_after_read_fits) (use assms in \<open>simp_all add: example_env_def HTTP_BUFFER_SIZE_def\<close>)
  also have "\<dots> = (inbound @ replicate (64 - length inbound) CHR ''#'') @ NUL # replicate 335 NUL"
  proof -
    have "replicate 336 NUL = NUL # replicate 335 NUL"
      using replicate_Suc [of 335 NUL] by simp
    then show ?thesis using assms(1) by (simp add: example_env_def)
  qed
  finally have "drop 0 (buffer_after_read (stack_buf example_env) inbound) =
      (inbound @ replicate (64 - length inbound) CHR ''#'') @ NUL # replicate 335 NUL"
    by simp
  then show ?thesis
    by (rule c_str_SomeI) (use assms(2) in \<open>simp add: NUL_def\<close>)
qed

lemma classify_GET_temp: "classify_request (stack_buf example_env) request_GET_temp = Inr ([], True, ERR_UNKNOWN)"
proof (rule classify_Serve)
  show "length request_GET_temp \<le> HTTP_BUFFER_SIZE"
    by (simp add: request_GET_temp_def CRLF_def HTTP_BUFFER_SIZE_def)
  show "c_str (buffer_after_read (stack_buf example_env) request_GET_temp) 0 =
          Some (request_GET_temp @ replicate (64 - length request_GET_temp) CHR ''#'')"
    by (rule example_buffer) (simp_all add: request_GET_temp_def CRLF_def NUL_def)
  show "find_sub ''GET'' (request_GET_temp @ replicate (64 - length request_GET_temp) CHR ''#'') = Some 0"
    by (simp add: request_GET_temp_def)
  show "find_char CHR '' '' (drop 0 (request_GET_temp @ replicate (64 - length request_GET_temp) CHR ''#'')) = Some 3"
    by (simp add: request_GET_temp_def)
  show "takeWhile (\<lambda>c. c \<noteq> CHR '' '')
          (drop (0 + 3 + 1) (request_GET_temp @ replicate (64 - length request_GET_temp) CHR ''#'')) = ''/temp''"
    by (simp add: request_GET_temp_def)
qed

lemma classify_POST_note: "classify_request (stack_buf example_env) request_POST_note = Inr ([], True, ERR_UNKNOWN)"
proof (rule classify_Serve)
  show "length request_POST_note \<le> HTTP_BUFFER_SIZE"
    by (simp add: request_POST_note_def CRLF_def HTTP_BUFFER_SIZE_def)
  show "c_str (buffer_after_read (stack_buf example_env) request_POST_note) 0 =
          Some (request_POST_note @ replicate (64 - length request_POST_note) CHR ''#'')"
    by (rule example_buffer) (simp_all add: request_POST_note_def CRLF_def NUL_def)
  show "find_sub ''GET'' (request_POST_note @ replicate (64 - length request_POST_note) CHR ''#'') = Some 29"
    by (simp add: request_POST_note_def CRLF_def)
  show "find_char CHR '' '' (drop 29 (request_POST_note @ replicate (64 - length request_POST_note) CHR ''#'')) = Some 3"
    by (simp add: request_POST_note_def CRLF_def)
  show "takeWhile (\<lambda>c. c \<noteq> CHR '' '')
          (drop (29 + 3 + 1) (request_POST_note @ replicate (64 - length request_POST_note) CHR ''#'')) = ''/temp''"
    by (simp add: request_POST_note_def CRLF_def)
qed


lemma no_GET_in_POST_temp: "find_sub ''GET'' (request_POST_temp @ replicate 41 CHR ''#'') = None"
  by (rule find_sub_absent) (simp_all add: request_POST_temp_def CRLF_def)

lemma classify_POST_temp:
  "classify_request (stack_buf example_env) request_POST_temp = Inr ([], False, ERROR_NOT_GET_REQ)"
proof -
  have a: "length request_POST_temp \<le> HTTP_BUFFER_SIZE"
    by (simp add: request_POST_temp_def CRLF_def HTTP_BUFFER_SIZE_def)
  have "c_str (buffer_after_read (stack_buf example_env) request_POST_temp) 0 =
          Some (request_POST_temp @ replicate (64 - length request_POST_temp) CHR ''#'')"
    by (rule example_buffer) (simp_all add: request_POST_temp_def CRLF_def NUL_def)
  then have b: "c_str (buffer_after_read (stack_buf example_env) request_POST_temp) 0 =
          Some (request_POST_temp @ replicate 41 CHR ''#'')"
    by (simp add: request_POST_temp_def CRLF_def)
  show ?thesis
    using eval_input_no_GET [OF b no_GET_in_POST_temp] by (simp add: classify_request_fits [OF a])
qed

lemma example_readings:
  "spec_reading example_env example_state 0 = 5"
  "spec_reading example_env example_state (Suc 0) = - 1"
  by (simp_all add: spec_reading_def spec_offset_def example_env_def tempSensors_def)

lemma example_fits: "\<forall>i<2. length (dtostrf5 (spec_reading example_env example_state i)) \<le> 9"
  by (simp add: less_2_cases_all example_readings dtostrf5_5 dtostrf5_m1)

lemma example_diagnostics: "concat (map (spec_diagnostic example_env) [0..<2]) = []"
  by (simp add: upt_2 spec_diagnostic_def example_env_def)

lemma example_body: "spec_body example_env example_state 2 = ''Lake Water: 5.00000|Outside Air: -1.00000'' @ CRLF"
  by (simp add: spec_body_def spec_entry_def spec_reading_def spec_offset_def example_env_def
      example_state_def tempSensors_def tempSensorNames_def dtostrf5_5 dtostrf5_m1
      upt_2)

lemma example_refresh: "spec_refresh_all example_env example_state 2 =
    \<lparr>temperatureReadings = [5, - 1, 0], mesh_timer = 0, numberOfOneWireDevices = 2\<rparr>"
  by (simp add: spec_refresh_all_def spec_reading_def spec_offset_def example_env_def
      example_state_def tempSensors_def upt_3)

lemma example_Serve:
  assumes "classify_request (stack_buf example_env) inbound = Inr ([], True, ERR_UNKNOWN)"
  shows "serve_client example_env example_state inbound =
     Inr (\<lparr>temperatureReadings = [5, - 1, 0], mesh_timer = 0, numberOfOneWireDevices = 2\<rparr>,
          [ClientFlush [], RequestTemperatures,
           SerialPrint (''Temperature request received; responding...'' @ CRLF),
           ClientWrite (HTTP_200_HEADER @ ''Lake Water: 5.00000|Outside Air: -1.00000'' @ CRLF),
           ClientStop])"
proof -
  have n: "unat (numberOfOneWireDevices example_state) = 2" by (simp add: example_state_def)
  have l: "length (temperatureReadings example_state) = 3" by (simp add: example_state_def)
  show ?thesis
    using serve_client_Serve [OF assms n _ l example_fits]
    by (simp add: example_body example_refresh example_diagnostics)
qed

text \<open>
  The scenario of the specification: \<open>GET /temp HTTP/1.1\<close> with Lake Water at 5.0 and
  Outside Air at -1.0.
\<close>

lemma success_response_scenario:
  "classify_request (stack_buf example_env) request_GET_temp = Inr ([], True, ERR_UNKNOWN) \<and>
   serve_client example_env example_state request_GET_temp =
     Inr (\<lparr>temperatureReadings = [5, - 1, 0], mesh_timer = 0, numberOfOneWireDevices = 2\<rparr>,
          [ClientFlush [], RequestTemperatures,
           SerialPrint (''Temperature request received; responding...'' @ CRLF),
           ClientWrite (HTTP_200_HEADER @ ''Lake Water: 5.00000|Outside Air: -1.00000'' @ CRLF),
           ClientStop]) \<and>
   count_list (''Lake Water: 5.00000|Outside Air: -1.00000'' @ CRLF) CHR ''|'' = 1"
proof -
  have n: "unat (numberOfOneWireDevices example_state) = 2" by (simp add: example_state_def)
  have l: "length (temperatureReadings example_state) = 3" by (simp add: example_state_def)
  show ?thesis
    using success_response_in_bounds [OF classify_GET_temp n _ l example_fits] classify_GET_temp
    by (simp add: example_body example_refresh example_diagnostics)
qed

section \<open>The claims\<close>

text \<open>
  C1. Not every request classified as Serve gets the success response. A reachable
  sensor whose reading is -127 makes \<open>dtostrf\<close> write \<open>-127.00000\<close>, ten characters and
  the terminator, into \<open>char fltStr[10]\<close>: for the request \<open>GET /temp HTTP/1.1\<close> the
  loop runs past the end of the array and no response is defined.
\<close>

theorem fltStr_overrun:
  "classify_request (stack_buf example_env_sentinel) request_GET_temp = Inr ([], True, ERR_UNKNOWN) \<and>
   isConnected example_env_sentinel (tempSensors ! 0) \<and>
   getTempC example_env_sentinel (tempSensors ! 0) = - 127 \<and>
   dtostrf5 (- 127) = ''-127.00000'' \<and>
   serve_client example_env_sentinel example_state request_GET_temp = Inl WritePastBuffer"
proof -
  have sb: "stack_buf example_env_sentinel = stack_buf example_env"
    by (simp add: example_env_sentinel_def)
  have c: "classify_request (stack_buf example_env_sentinel) request_GET_temp =
             Inr ([], True, ERR_UNKNOWN)"
    unfolding sb by (rule classify_GET_temp)
  have e: "isConnected example_env_sentinel (tempSensors ! 0)"
    "getTempC example_env_sentinel (tempSensors ! 0) = - 127"
    by (simp_all add: example_env_sentinel_def example_env_def)
  have r: "spec_reading example_env_sentinel example_state 0 = - 127"
    using e by (simp add: spec_reading_def spec_offset_def)
  have "send_sensors example_env_sentinel 2 0 example_state HTTP_200_HEADER = Inl WritePastBuffer"
  proof (rule send_sensors_overrun)
    show "9 < length (dtostrf5 (spec_reading example_env_sentinel example_state 0))"
      by (simp add: r dtostrf5_m127)
    show "length (temperatureReadings example_state) = 3" by (simp add: example_state_def)
    show "length HTTP_200_HEADER + 13 < HTTP_BUFFER_SIZE"
      by (simp add: length_HTTP_200_HEADER HTTP_BUFFER_SIZE_def)
  qed simp_all
  moreover have "unat (numberOfOneWireDevices example_state) = 2"
    by (simp add: example_state_def)
  moreover have "strcpy HTTP_BUFFER_SIZE HTTP_200_HEADER = Inr HTTP_200_HEADER"
    by (simp add: strcpy_def length_HTTP_200_HEADER HTTP_BUFFER_SIZE_def)
  ultimately have "serve_client example_env_sentinel example_state request_GET_temp =
      Inl WritePastBuffer"
    using c by (simp add: serve_client_def)
  then show ?thesis using c e dtostrf5_m127 by simp
qed

text \<open>
  C2. A request of more than 400 bytes: the read loop stops with \<open>idx\<close> at 400, the
  bytes not read are flushed, nothing is parsed and no sensor is touched, and the
  response is exactly the 431 text, followed by the close.
\<close>

theorem overflow_rejected:
  assumes "HTTP_BUFFER_SIZE < length inbound"
  shows "fst (read_request 0 (stack_buf env) inbound) = HTTP_BUFFER_SIZE \<and>
         classify_request (stack_buf env) inbound =
           Inr (drop HTTP_BUFFER_SIZE inbound, False, ERR_BUF_OVERFLOW) \<and>
         serve_client env st inbound =
           Inr (st, [ClientFlush (drop HTTP_BUFFER_SIZE inbound),
                     ClientWrite (''HTTP/1.1 431 Request Header Fields Too Large '' @ CRLF @ CRLF),
                     ClientStop])"
proof -
  from read_request_overflow [of 0 inbound "stack_buf env"] assms
  obtain buf' where "read_request 0 (stack_buf env) inbound =
      (HTTP_BUFFER_SIZE, buf', drop HTTP_BUFFER_SIZE inbound, False, ERR_BUF_OVERFLOW)"
    by auto
  then show ?thesis by (simp add: classify_request_def serve_client_def)
qed

theorem overflow_rejected_witness:
  "HTTP_BUFFER_SIZE < length (replicate 401 CHR ''A'') \<and>
   serve_client example_env example_state (replicate 401 CHR ''A'') =
     Inr (example_state,
          [ClientFlush ''A'',
           ClientWrite (''HTTP/1.1 431 Request Header Fields Too Large '' @ CRLF @ CRLF),
           ClientStop])"
  using overflow_rejected [of "replicate 401 CHR ''A''" example_env example_state]
  by (simp add: HTTP_BUFFER_SIZE_def)

text \<open>
  C3, as amended. A request of at most 400 bytes, where the string that \<open>buf\<close> holds
  after the read loop contains no \<open>GET\<close> anywhere: the response is exactly the 405 text,
  the connection is closed, and the sensors and stored readings are left alone.
\<close>

theorem no_GET_rejected:
  assumes "length inbound \<le> HTTP_BUFFER_SIZE"
    and "c_str (buffer_after_read (stack_buf env) inbound) 0 = Some s"
    and "find_sub ''GET'' s = None"
  shows "serve_client env st inbound =
           Inr (st, [ClientFlush [],
                     ClientWrite (''HTTP/1.1 405 Method Not Allowed '' @ CRLF @ CRLF),
                     ClientStop])"
  using assms eval_input_no_GET [OF assms(2,3)]
  by (simp add: serve_client_def classify_request_fits)

theorem no_GET_rejected_witness:
  "length request_POST_temp \<le> HTTP_BUFFER_SIZE \<and>
   c_str (buffer_after_read (stack_buf example_env) request_POST_temp) 0 =
     Some (request_POST_temp @ replicate 41 CHR ''#'') \<and>
   find_sub ''GET'' (request_POST_temp @ replicate 41 CHR ''#'') = None \<and>
   serve_client example_env example_state request_POST_temp =
     Inr (example_state,
          [ClientFlush [], ClientWrite (''HTTP/1.1 405 Method Not Allowed '' @ CRLF @ CRLF),
           ClientStop])"
proof -
  have a: "length request_POST_temp \<le> HTTP_BUFFER_SIZE"
    by (simp add: request_POST_temp_def CRLF_def HTTP_BUFFER_SIZE_def)
  have "c_str (buffer_after_read (stack_buf example_env) request_POST_temp) 0 =
          Some (request_POST_temp @ replicate (64 - length request_POST_temp) CHR ''#'')"
    by (rule example_buffer) (simp_all add: request_POST_temp_def CRLF_def NUL_def)
  then have b: "c_str (buffer_after_read (stack_buf example_env) request_POST_temp) 0 =
          Some (request_POST_temp @ replicate 41 CHR ''#'')"
    by (simp add: request_POST_temp_def CRLF_def)
  show ?thesis
    using no_GET_rejected [OF a b no_GET_in_POST_temp, of example_state] a b no_GET_in_POST_temp
    by simp
qed

text \<open>
  C3 as stated speaks of the method token. A \<open>POST\<close> request with \<open>GET /temp\<close> in a
  header line is served with 200 and a sensor refresh, since \<open>strstr\<close> searches the
  whole buffer.
\<close>

theorem non_GET_method_counterexample:
  "spec_method request_POST_note = ''POST'' \<and>
   serve_client example_env example_state request_POST_note \<noteq>
     Inr (example_state,
          [ClientFlush [], ClientWrite (error_response ERROR_NOT_GET_REQ), ClientStop]) \<and>
   serve_client example_env example_state request_POST_note =
     Inr (\<lparr>temperatureReadings = [5, - 1, 0], mesh_timer = 0, numberOfOneWireDevices = 2\<rparr>,
          [ClientFlush [], RequestTemperatures,
           SerialPrint (''Temperature request received; responding...'' @ CRLF),
           ClientWrite (HTTP_200_HEADER @ ''Lake Water: 5.00000|Outside Air: -1.00000'' @ CRLF),
           ClientStop])"
  using example_Serve [OF classify_POST_note] by (simp add: spec_method_def request_POST_note_def)




text \<open>
  C5. Not every input ends in one of the five outcomes. The four bytes \<open>GET\<close>, NUL leave
  \<open>gettype\<close> NULL after the first \<open>strsep\<close>, so \<open>addr\<close> is NULL and \<open>strcmp\<close> reads
  through a null pointer; 400 bytes without a NUL fill \<open>buf\<close>, which is never
  terminated, and \<open>strstr\<close> reads past its end.
\<close>

theorem request_can_fault:
  assumes "length (stack_buf env) = HTTP_BUFFER_SIZE"
  shows "serve_client env st (''GET'' @ [NUL]) = Inl NullPointer \<and>
         serve_client env st (replicate HTTP_BUFFER_SIZE CHR ''A'') = Inl ReadPastBuffer"
  using GET_without_space_NullPointer [OF assms] unterminated_buffer_faults [OF assms]
  by simp

theorem request_can_fault_witness:
  "length (stack_buf example_env) = HTTP_BUFFER_SIZE \<and>
   serve_client example_env example_state (''GET'' @ [NUL]) = Inl NullPointer \<and>
   serve_client example_env example_state (replicate HTTP_BUFFER_SIZE CHR ''A'') =
     Inl ReadPastBuffer"
proof -
  have a: "length (stack_buf example_env) = HTTP_BUFFER_SIZE"
    by (simp add: example_env_def HTTP_BUFFER_SIZE_def)
  show ?thesis using request_can_fault [OF a, of example_state] a by simp
qed

text \<open>
  C6. In a run of the periodic health check: when the probe fails, the first event after
  the probe switches the connectivity indicator off, it is off when the blocking
  re-association is called and while it runs, and the first event after the call
  switches it on, whatever the re-association did; when the probe succeeds, the
  indicator is switched on.
\<close>

theorem check_mesh_indicator:
  assumes "MESH_CHECK_INTERVAL < millis_test env - mesh_timer st"
  shows "(\<not> checkConnection env \<longrightarrow>
            snd (check_mesh env st) =
              [CheckConnection False, DigitalWrite LED_PIN LOW, RenewAddress, DigitalWrite LED_PIN HIGH]
            \<and> pin_level LED_PIN lvl (take 2 (snd (check_mesh env st))) = LOW
            \<and> pin_level LED_PIN lvl (take 3 (snd (check_mesh env st))) = LOW
            \<and> pin_level LED_PIN lvl (snd (check_mesh env st)) = HIGH)
       \<and> (checkConnection env \<longrightarrow>
            snd (check_mesh env st) = [CheckConnection True, DigitalWrite LED_PIN HIGH]
            \<and> pin_level LED_PIN lvl (snd (check_mesh env st)) = HIGH)"
  using assms by (simp add: check_mesh_def LOW_def HIGH_def)

theorem check_mesh_indicator_witness:
  "MESH_CHECK_INTERVAL < millis_test example_env - mesh_timer example_state \<and>
   snd (check_mesh example_env example_state) =
     [CheckConnection False, DigitalWrite LED_PIN LOW, RenewAddress, DigitalWrite LED_PIN HIGH] \<and>
   pin_level LED_PIN HIGH (take 2 (snd (check_mesh example_env example_state))) = LOW \<and>
   pin_level LED_PIN HIGH (take 3 (snd (check_mesh example_env example_state))) = LOW \<and>
   pin_level LED_PIN HIGH (snd (check_mesh example_env example_state)) = HIGH \<and>
   snd (check_mesh (example_env\<lparr>checkConnection := True\<rparr>) example_state) =
     [CheckConnection True, DigitalWrite LED_PIN HIGH]"
proof -
  have a: "MESH_CHECK_INTERVAL < millis_test example_env - mesh_timer example_state"
    by (simp add: example_env_def example_state_def MESH_CHECK_INTERVAL_def)
  have b: "MESH_CHECK_INTERVAL <
             millis_test (example_env\<lparr>checkConnection := True\<rparr>) - mesh_timer example_state"
    by (simp add: example_env_def example_state_def MESH_CHECK_INTERVAL_def)
  have c: "\<not> checkConnection example_env" by (simp add: example_env_def)
  show ?thesis
    using check_mesh_indicator [OF a, of HIGH] check_mesh_indicator [OF b, of HIGH] a c
    by simp
qed

text \<open>
  C7. In every iteration of \<open>loop\<close> whose request, if a client is pending, is read and
  answered without undefined behaviour (the classification returns, and a Serve request
  finds at most three devices and readings that fit \<open>fltStr\<close>), the call returns and the
  watchdog reset is the last event, once, when \<open>radio.failureDetected\<close> is false, and
  does not occur when the flag is true. With a client pending, the event before it is
  the close of the connection.
\<close>

theorem watchdog_once_at_end:
  assumes "\<forall>inbound. available env = Some inbound \<longrightarrow>
            (\<exists>rest transmit e.
               classify_request (stack_buf env) inbound = Inr (rest, transmit, e) \<and>
               (transmit \<longrightarrow>
                  unat (numberOfOneWireDevices st) \<le> 3 \<and>
                  length (temperatureReadings st) = 3 \<and>
                  (\<forall>i<unat (numberOfOneWireDevices st).
                     length (dtostrf5 (spec_reading env st i)) \<le> 9)))"
  shows "\<exists>st' pre. loop env st =
             Inr (st', pre @ (if failureDetected env then [] else [WdtReset])) \<and>
           WdtReset \<notin> set pre \<and>
           (available env \<noteq> None \<longrightarrow> pre \<noteq> [] \<and> last pre = ClientStop)"
proof (cases "available env")
  case None
  then have "loop env st =
      Inr (fst (check_mesh env st),
           snd (check_mesh env st) @ (if failureDetected env then [] else [WdtReset]))"
    by (simp add: loop_def split_beta)
  then show ?thesis using None check_mesh_keeps(3) by blast
next
  case (Some inbound)
  let ?st1 = "fst (check_mesh env st)"
  let ?ev1 = "snd (check_mesh env st)"
  from assms Some obtain rest transmit e where
    c: "classify_request (stack_buf env) inbound = Inr (rest, transmit, e)"
    and t: "transmit \<longrightarrow>
              unat (numberOfOneWireDevices st) \<le> 3 \<and> length (temperatureReadings st) = 3 \<and>
              (\<forall>i<unat (numberOfOneWireDevices st). length (dtostrf5 (spec_reading env st i)) \<le> 9)"
    by blast
  have "\<exists>st2 ev2. serve_client env ?st1 inbound = Inr (st2, ev2 @ [ClientStop])"
  proof (cases transmit)
    case True
    have "serve_client env ?st1 inbound =
            Inr (spec_refresh_all env ?st1 (unat (numberOfOneWireDevices st)),
                 [ClientFlush rest, RequestTemperatures,
                  SerialPrint (''Temperature request received; responding...'' @ CRLF)]
                 @ concat (map (spec_diagnostic env) [0..<unat (numberOfOneWireDevices st)])
                 @ [ClientWrite (HTTP_200_HEADER @ spec_body env ?st1 (unat (numberOfOneWireDevices st))),
                    ClientStop])"
      using c True t
      by (intro serve_client_Serve) (simp_all add: check_mesh_keeps spec_reading_check_mesh)
    then have "serve_client env ?st1 inbound =
            Inr (spec_refresh_all env ?st1 (unat (numberOfOneWireDevices st)),
                 ([ClientFlush rest, RequestTemperatures,
                  SerialPrint (''Temperature request received; responding...'' @ CRLF)]
                 @ concat (map (spec_diagnostic env) [0..<unat (numberOfOneWireDevices st)])
                 @ [ClientWrite (HTTP_200_HEADER @ spec_body env ?st1 (unat (numberOfOneWireDevices st)))])
                 @ [ClientStop])"
      by simp
    then show ?thesis by blast
  next
    case False
    then have "serve_client env ?st1 inbound =
                 Inr (?st1, [ClientFlush rest, ClientWrite (error_response e)] @ [ClientStop])"
      using c by (simp add: serve_client_def)
    then show ?thesis by blast
  qed
  then obtain st2 ev2 where s: "serve_client env ?st1 inbound = Inr (st2, ev2 @ [ClientStop])"
    by blast
  have nw: "WdtReset \<notin> set (ev2 @ [ClientStop])" by (rule serve_client_no_wdt [OF s])
  have "loop env st =
      Inr (st2, (?ev1 @ ev2 @ [ClientStop]) @ (if failureDetected env then [] else [WdtReset]))"
    using s Some by (simp add: loop_def split_beta)
  moreover have "WdtReset \<notin> set (?ev1 @ ev2 @ [ClientStop])"
    using nw check_mesh_keeps(3) by simp
  moreover have "?ev1 @ ev2 @ [ClientStop] \<noteq> [] \<and> last (?ev1 @ ev2 @ [ClientStop]) = ClientStop"
    by simp
  ultimately show ?thesis by blast
qed

text \<open>
  An iteration that serves \<open>GET /temp\<close>, one that rejects \<open>POST /temp\<close> while the radio
  reports a failure, and one without a client.
\<close>

theorem watchdog_once_at_end_witness:
  "(\<exists>st' pre. loop (example_env\<lparr>available := Some request_GET_temp\<rparr>) example_state =
        Inr (st', pre @ [WdtReset]) \<and>
      WdtReset \<notin> set pre \<and> pre \<noteq> [] \<and> last pre = ClientStop) \<and>
   (\<exists>st' pre. loop (example_env\<lparr>available := Some request_POST_temp, failureDetected := True\<rparr>)
          example_state = Inr (st', pre) \<and>
      WdtReset \<notin> set pre \<and> pre \<noteq> [] \<and> last pre = ClientStop) \<and>
   (\<exists>st' pre. loop example_env example_state = Inr (st', pre @ [WdtReset]) \<and> WdtReset \<notin> set pre)"
proof -
  let ?e1 = "example_env\<lparr>available := Some request_GET_temp\<rparr>"
  let ?e2 = "example_env\<lparr>available := Some request_POST_temp, failureDetected := True\<rparr>"
  have r1: "spec_reading ?e1 st i = spec_reading example_env st i" for st i
    by (simp add: spec_reading_def)
  have n: "unat (numberOfOneWireDevices example_state) = 2"
    and l: "length (temperatureReadings example_state) = 3"
    by (simp_all add: example_state_def)
  have h1: "\<forall>inbound. available ?e1 = Some inbound \<longrightarrow>
            (\<exists>rest transmit e.
               classify_request (stack_buf ?e1) inbound = Inr (rest, transmit, e) \<and>
               (transmit \<longrightarrow>
                  unat (numberOfOneWireDevices example_state) \<le> 3 \<and>
                  length (temperatureReadings example_state) = 3 \<and>
                  (\<forall>i<unat (numberOfOneWireDevices example_state).
                     length (dtostrf5 (spec_reading ?e1 example_state i)) \<le> 9)))"
    using classify_GET_temp example_fits by (auto simp: r1 n l)
  have h2: "\<forall>inbound. available ?e2 = Some inbound \<longrightarrow>
            (\<exists>rest transmit e.
               classify_request (stack_buf ?e2) inbound = Inr (rest, transmit, e) \<and>
               (transmit \<longrightarrow>
                  unat (numberOfOneWireDevices example_state) \<le> 3 \<and>
                  length (temperatureReadings example_state) = 3 \<and>
                  (\<forall>i<unat (numberOfOneWireDevices example_state).
                     length (dtostrf5 (spec_reading ?e2 example_state i)) \<le> 9)))"
    using classify_POST_temp by auto
  have h3: "\<forall>inbound. available example_env = Some inbound \<longrightarrow>
            (\<exists>rest transmit e.
               classify_request (stack_buf example_env) inbound = Inr (rest, transmit, e) \<and>
               (transmit \<longrightarrow>
                  unat (numberOfOneWireDevices example_state) \<le> 3 \<and>
                  length (temperatureReadings example_state) = 3 \<and>
                  (\<forall>i<unat (numberOfOneWireDevices example_state).
                     length (dtostrf5 (spec_reading example_env example_state i)) \<le> 9)))"
    by (simp add: example_env_def)
  have f: "\<not> failureDetected ?e1" "failureDetected ?e2" "\<not> failureDetected example_env"
    "available example_env = None"
    by (simp_all add: example_env_def)
  show ?thesis
    using watchdog_once_at_end [OF h1] watchdog_once_at_end [OF h2] watchdog_once_at_end [OF h3] f
    by simp
qed

text \<open>
  C8. With \<open>t0\<close> the time of the last check and \<open>t\<close> the present time, less than
  \<open>2\<^sup>3\<^sup>2\<close> ms later: the 32-bit comparison probes exactly when more than 15000 ms
  have passed, also across a wrap of the clock, and a check restarts the interval from
  the time of the check, whether or not the probe succeeded.
\<close>

theorem check_mesh_interval:
  fixes t0 t :: nat
  assumes "mesh_timer st = of_nat t0" and "millis_test env = of_nat t"
    and "t0 \<le> t" and "t - t0 < 2 ^ 32"
  shows "(probes (snd (check_mesh env st)) \<longleftrightarrow> 15000 < t - t0) \<and>
         mesh_timer (fst (check_mesh env st)) = (if 15000 < t - t0 then millis_store env else of_nat t0)"
proof -
  have "unat (millis_test env - mesh_timer st) = t - t0"
    using assms by (simp add: word_elapsed)
  then have "MESH_CHECK_INTERVAL < millis_test env - mesh_timer st \<longleftrightarrow> 15000 < t - t0"
    by (simp add: MESH_CHECK_INTERVAL_def word_less_nat_alt)
  then show ?thesis using assms(1)
    by (simp add: check_mesh_def probes_def)
qed

text \<open>
  The last check at 4294960000 ms: 20000 ms later the clock has wrapped to 12704 and
  the probe runs; 15000 ms later (7704) it does not.
\<close>

theorem check_mesh_interval_witness:
  "mesh_timer (example_state\<lparr>mesh_timer := 4294960000\<rparr>) = of_nat 4294960000 \<and>
   millis_test (example_env\<lparr>millis_test := 12704\<rparr>) = of_nat 4294980000 \<and>
   probes (snd (check_mesh (example_env\<lparr>millis_test := 12704\<rparr>)
                           (example_state\<lparr>mesh_timer := 4294960000\<rparr>))) \<and>
   millis_test (example_env\<lparr>millis_test := 7704\<rparr>) = of_nat 4294975000 \<and>
   \<not> probes (snd (check_mesh (example_env\<lparr>millis_test := 7704\<rparr>)
                           (example_state\<lparr>mesh_timer := 4294960000\<rparr>)))"
proof -
  let ?st = "example_state\<lparr>mesh_timer := 4294960000\<rparr>"
  have a: "mesh_timer ?st = of_nat 4294960000" by simp
  have b: "millis_test (example_env\<lparr>millis_test := 12704\<rparr>) = of_nat 4294980000" by simp
  have c: "millis_test (example_env\<lparr>millis_test := 7704\<rparr>) = of_nat 4294975000" by simp
  show ?thesis
    using check_mesh_interval [OF a b] check_mesh_interval [OF a c] a b c by simp
qed

text \<open>
  C9. An unreachable sensor makes \<open>saveTemperature\<close> report a diagnostic and return
  with the stored readings untouched. In a refresh pass over the first \<open>n \<le> 3\<close>
  identities every identity is attempted: a reachable one stores its calibrated
  reading, an unreachable one keeps its reading and adds its diagnostic, and the pass
  goes on to the next identity.
\<close>

theorem refresh_pass_independent:
  assumes "n \<le> 3" and "length (temperatureReadings st) = 3"
    and "\<forall>i<n. length (dtostrf5 (spec_reading env st i)) \<le> 9"
  shows "(\<forall>i<3. \<not> isConnected env (tempSensors ! i) \<longrightarrow>
            saveTemperature env i st =
              Inr (st, [SerialPrint ''Error: unable to communicate with sensor '',
                        SerialPrint (tempSensorNames ! i @ CRLF)]))
       \<and> (\<exists>st' buf'. send_sensors env n 0 st HTTP_200_HEADER =
                          Inr (st', concat (map (spec_diagnostic env) [0..<n]), buf')
            \<and> (\<forall>i<n. temperatureReadings st' ! i =
                  (if isConnected env (tempSensors ! i)
                   then getTempC env (tempSensors ! i) + spec_offset i
                   else temperatureReadings st ! i)))"
proof -
  have "\<forall>i<n. temperatureReadings (spec_refresh_all env st n) ! i = spec_reading env st i"
    using assms(1) by (auto simp: spec_refresh_all_def nth_append)
  then have "\<forall>i<n. temperatureReadings (spec_refresh_all env st n) ! i =
                  (if isConnected env (tempSensors ! i)
                   then getTempC env (tempSensors ! i) + spec_offset i
                   else temperatureReadings st ! i)"
    by (simp add: spec_reading_def)
  moreover have "\<forall>i<3. \<not> isConnected env (tempSensors ! i) \<longrightarrow>
            saveTemperature env i st =
              Inr (st, [SerialPrint ''Error: unable to communicate with sensor '',
                        SerialPrint (tempSensorNames ! i @ CRLF)])"
    by (simp add: saveTemperature_def tempSensors_def)
  ultimately show ?thesis using send_sensors_header [OF assms] by blast
qed

theorem refresh_pass_independent_witness:
  "\<exists>st' buf'. send_sensors example_env_offline 2 0 example_state_stale HTTP_200_HEADER =
       Inr (st', [SerialPrint ''Error: unable to communicate with sensor '',
                  SerialPrint (''Lake Water: '' @ CRLF)], buf')
     \<and> temperatureReadings st' ! 0 = 4 \<and> temperatureReadings st' ! 1 = - 1"
proof -
  have r: "spec_reading example_env_offline example_state_stale 0 = 4"
    "spec_reading example_env_offline example_state_stale (Suc 0) = - 1"
    by (simp_all add: spec_reading_def spec_offset_def example_env_offline_def example_env_def
        example_state_stale_def tempSensors_def)
  have f: "\<forall>i<2. length (dtostrf5 (spec_reading example_env_offline example_state_stale i)) \<le> 9"
    by (simp add: less_2_cases_all r dtostrf5_4 dtostrf5_m1)
  have l: "length (temperatureReadings example_state_stale) = 3"
    by (simp add: example_state_stale_def)
  have d: "concat (map (spec_diagnostic example_env_offline) [0..<2]) =
             [SerialPrint ''Error: unable to communicate with sensor '',
              SerialPrint (''Lake Water: '' @ CRLF)]"
    by (simp add: upt_2 spec_diagnostic_def example_env_offline_def example_env_def
        tempSensors_def tempSensorNames_def)
  have c: "isConnected example_env_offline (tempSensors ! 0) = False"
    "isConnected example_env_offline (tempSensors ! Suc 0) = True"
    "getTempC example_env_offline (tempSensors ! Suc 0) = - 1"
    "temperatureReadings example_state_stale ! 0 = 4"
    by (simp_all add: example_env_offline_def example_env_def example_state_stale_def
        tempSensors_def)
  show ?thesis
    using refresh_pass_independent [OF _ l f] c
    by (simp add: d less_2_cases_all spec_offset_def)
qed

text \<open>
  C10. A successful reading of the sensor at index 2 stores the raw Celsius reading
  minus 0.9375; a successful reading of the sensors at index 0 and 1 stores the raw
  reading unchanged. The other readings are left as they were.
\<close>

theorem saveTemperature_calibration:
  assumes "sensorId < 3" and "isConnected env (tempSensors ! sensorId)"
    and "length (temperatureReadings st) = 3"
  shows "\<exists>st'. saveTemperature env sensorId st = Inr (st', []) \<and>
           temperatureReadings st' ! sensorId =
             (if sensorId = 2 then getTempC env (tempSensors ! sensorId) - 0.9375
              else getTempC env (tempSensors ! sensorId)) \<and>
           (\<forall>j. j \<noteq> sensorId \<longrightarrow> temperatureReadings st' ! j = temperatureReadings st ! j)"
  using assms by (simp add: saveTemperature_def tempSensors_def Let_def)

theorem saveTemperature_calibration_witness:
  "\<exists>st'. saveTemperature example_env 2 example_state = Inr (st', []) \<and>
      temperatureReadings st' ! 2 = - 1 - 0.9375 \<and>
      (\<forall>j. j \<noteq> 2 \<longrightarrow> temperatureReadings st' ! j = temperatureReadings example_state ! j)"
  using saveTemperature_calibration [of 2 example_env example_state]
  by (simp add: example_env_def example_state_def tempSensors_def)

end
